theory Spec2Isabelle
  imports Main "HOL-Library.Sublist" "HOL-Library.While_Combinator"
begin

section \<open>The deep-search tool: parameter capping\<close>

text \<open>
  \<^verbatim>\<open>src/tools/deep-search.ts\<close>, \<^verbatim>\<open>deepSearchTool.handler\<close>:
  \<^verbatim>\<open>
  const { query, results = 3, depth = 1 } = params;
  const maxResults = Math.min(Math.max(1, parseInt(String(results)) || 3), 10);
  const maxDepth = Math.min(Math.max(1, parseInt(String(depth)) || 1), 3);
  \<close>
  The handler gets the arguments as they come, of any type. All it does with a parameter
  that is not \<^verbatim>\<open>undefined\<close> is \<^verbatim>\<open>parseInt(String(v))\<close>, so a parameter is modelled by
  what that gives:
  \<^item> \<open>Absent\<close>: \<^verbatim>\<open>undefined\<close>, for which the destructuring default applies;
  \<^item> \<open>Reads n\<close>: a value whose string form \<^verbatim>\<open>parseInt\<close> reads as the integer \<open>n\<close>;
  \<^item> \<open>Unparsable\<close>: a value for which \<^verbatim>\<open>parseInt\<close> gives \<^verbatim>\<open>NaN\<close> (\<^verbatim>\<open>null\<close>, \<^verbatim>\<open>"abc"\<close>,
    \<^verbatim>\<open>true\<close>).

  A number that is an integer \<open>n\<close> below \<open>10^21\<close> in size is \<open>Reads n\<close>: \<^verbatim>\<open>String\<close> prints
  it in plain decimal and \<^verbatim>\<open>parseInt\<close> reads it back. Other values read as an integer too:
  \<^verbatim>\<open>2.7\<close> is \<open>Reads 2\<close>, the string \<^verbatim>\<open>"12px"\<close> is \<open>Reads 12\<close>, and \<^verbatim>\<open>1e21\<close>, printed as
  \<^verbatim>\<open>1e+21\<close>, is \<open>Reads 1\<close>. (\<^verbatim>\<open>parseInt\<close> returns a floating point number; past \<open>2^53\<close> it
  is rounded, which \<^verbatim>\<open>Math.min(..., 10)\<close> hides.)
\<close>

datatype param = Absent | Reads int | Unparsable

text \<open>The destructuring default \<^verbatim>\<open>results = 3\<close>: it replaces \<^verbatim>\<open>undefined\<close> only.\<close>

fun destructure_default :: "int \<Rightarrow> param \<Rightarrow> param" where
  "destructure_default d Absent = Reads d"
| "destructure_default d p = p"

text \<open>\<^verbatim>\<open>parseInt(String(v))\<close>: \<open>None\<close> is \<^verbatim>\<open>NaN\<close>.\<close>

fun parseInt_String :: "param \<Rightarrow> int option" where
  "parseInt_String (Reads n) = Some n"
| "parseInt_String Unparsable = None"
| "parseInt_String Absent = None"

text \<open>\<^verbatim>\<open>x || d\<close> on a number: \<^verbatim>\<open>NaN\<close> and \<open>0\<close> are falsy.\<close>

fun or_default :: "int option \<Rightarrow> int \<Rightarrow> int" where
  "or_default None d = d"
| "or_default (Some n) d = (if n = 0 then d else n)"

definition maxResults :: "param \<Rightarrow> int" where
  "maxResults requested =
     min (max 1 (or_default (parseInt_String (destructure_default 3 requested)) 3)) 10"

definition maxDepth :: "param \<Rightarrow> int" where
  "maxDepth requested =
     min (max 1 (or_default (parseInt_String (destructure_default 1 requested)) 1)) 3"

text \<open>Clamping as specified: the requested integer clamped to \<open>[lo, hi]\<close>, the default
  when the value is absent or unparsable.\<close>

fun clamped :: "int \<Rightarrow> int \<Rightarrow> int \<Rightarrow> param \<Rightarrow> int" where
  "clamped lo hi d (Reads n) = min (max lo n) hi"
| "clamped lo hi d Absent = d"
| "clamped lo hi d Unparsable = d"

section \<open>Strings\<close>

text \<open>
  A JavaScript string is a sequence of UTF-16 code units, and \<^verbatim>\<open>length\<close>,
  \<^verbatim>\<open>startsWith\<close>, \<^verbatim>\<open>endsWith\<close>, \<^verbatim>\<open>includes\<close> and \<^verbatim>\<open>trim\<close> work on code units. A code unit
  is a natural number (below \<open>2^16\<close> in every string that occurs); \<open>str\<close> turns the
  characters of a literal into their code units.
\<close>

type_synonym code_unit = nat
type_synonym ustring = "code_unit list"

definition str :: "string \<Rightarrow> ustring" where
  "str s = map of_char s"

text \<open>
  What \<^verbatim>\<open>String.prototype.trim\<close> removes: the white space and the line terminators of
  ECMAScript, which are tab, line feed, vertical tab, form feed, carriage return, space,
  no-break space, the byte order mark and the other space separators of Unicode, and the
  line and paragraph separators.
\<close>

definition is_white_space :: "code_unit \<Rightarrow> bool" where
  "is_white_space c \<longleftrightarrow>
     c = 0x09 \<or> c = 0x0A \<or> c = 0x0B \<or> c = 0x0C \<or> c = 0x0D \<or> c = 0x20 \<or> c = 0xA0 \<or>
     c = 0x1680 \<or> (0x2000 \<le> c \<and> c \<le> 0x200A) \<or> c = 0x2028 \<or> c = 0x2029 \<or>
     c = 0x202F \<or> c = 0x205F \<or> c = 0x3000 \<or> c = 0xFEFF"

definition trim :: "ustring \<Rightarrow> ustring" where
  "trim s = rev (dropWhile is_white_space (rev (dropWhile is_white_space s)))"

text \<open>\<^verbatim>\<open>s.startsWith(p)\<close>, \<^verbatim>\<open>s.endsWith(p)\<close>, \<^verbatim>\<open>s.includes(p)\<close>.\<close>

definition startsWith :: "'a list \<Rightarrow> 'a list \<Rightarrow> bool" where
  "startsWith s p \<longleftrightarrow> prefix p s"

definition endsWith :: "'a list \<Rightarrow> 'a list \<Rightarrow> bool" where
  "endsWith s p \<longleftrightarrow> prefix (rev p) (rev s)"

fun str_includes :: "'a list \<Rightarrow> 'a list \<Rightarrow> bool" where
  "str_includes [] p = (p = [])"
| "str_includes (c # cs) p = (prefix p (c # cs) \<or> str_includes cs p)"

text \<open>
  \<^verbatim>\<open>.replace(/\\s+/g, ' ')\<close> as \<^verbatim>\<open>src/content-extractor.ts\<close> writes it: in a regular
  expression literal a doubled backslash is a backslash character, so the pattern is a
  backslash (code unit \<open>0x5C\<close>) followed by one or more letters \<^verbatim>\<open>s\<close>, and every such run
  becomes one space. \<^verbatim>\<open>.replace(/\\n+/g, '\\n')\<close> likewise turns a backslash followed by
  letters \<^verbatim>\<open>n\<close> into a backslash and one \<^verbatim>\<open>n\<close>.
\<close>

function replace_backslash_run :: "code_unit \<Rightarrow> ustring \<Rightarrow> ustring \<Rightarrow> ustring" where
  "replace_backslash_run l rep [] = []"
| "replace_backslash_run l rep (c # cs) =
     (if c = 0x5C \<and> (case cs of [] \<Rightarrow> False | x # _ \<Rightarrow> x = l)
      then rep @ replace_backslash_run l rep (dropWhile (\<lambda>x. x = l) cs)
      else c # replace_backslash_run l rep cs)"
  by pat_completeness auto
termination
  by (relation "measure (\<lambda>(l, rep, s). length s)")
     (auto simp: less_Suc_eq_le length_dropWhile_le)

definition clean_text :: "ustring \<Rightarrow> ustring" where
  "clean_text s = trim (replace_backslash_run (of_char CHR ''s'') (str '' '') s)"

section \<open>The rendered document\<close>

text \<open>
  What \<^verbatim>\<open>page.evaluate\<close> sees: a tree of elements (local name, attributes, children) and
  text nodes; \<^verbatim>\<open>window.location.href\<close> and \<^verbatim>\<open>window.location.origin\<close>;
  \<^verbatim>\<open>document.title\<close>; whether the document is in quirks mode; and the platform's
  \<^verbatim>\<open>new URL(href, window.location.href)\<close>, which gives the absolute URL or throws a
  \<^verbatim>\<open>TypeError\<close> (\<open>None\<close>). The names of elements and attributes are as the parser of HTML
  leaves them, in lower case; the selectors of the program are all in lower case.
\<close>

datatype node = Text ustring | Elem string "(string \<times> ustring) list" "node list"

record document =
  location_href :: ustring
  location_origin :: ustring
  doc_title :: ustring
  quirks_mode :: bool
  root :: node
  new_URL :: "ustring \<Rightarrow> ustring option"

text \<open>The selectors that the program uses: \<^verbatim>\<open>tag\<close>, \<^verbatim>\<open>.class\<close>, \<^verbatim>\<open>#id\<close>, \<^verbatim>\<open>tag[attr]\<close> and
  \<^verbatim>\<open>tag[attr="value"]\<close>.\<close>

datatype selector =
    Tag string
  | Class string
  | Id string
  | TagWithAttr string string
  | TagAttrEq string string string

fun getAttribute :: "node \<Rightarrow> string \<Rightarrow> ustring option" where
  "getAttribute (Text s) a = None"
| "getAttribute (Elem t attrs cs) a = map_of attrs a"

fun textContent :: "node \<Rightarrow> ustring" where
  "textContent (Text s) = s"
| "textContent (Elem t attrs cs) = concat (map textContent cs)"

text \<open>
  The class names of a \<^verbatim>\<open>class\<close> attribute: its tokens, separated by ASCII white space,
  which is tab, line feed, form feed, carriage return and space.
\<close>

definition is_ascii_whitespace :: "code_unit \<Rightarrow> bool" where
  "is_ascii_whitespace c \<longleftrightarrow> c = 0x09 \<or> c = 0x0A \<or> c = 0x0C \<or> c = 0x0D \<or> c = 0x20"

fun tokens :: "ustring \<Rightarrow> ustring \<Rightarrow> ustring list" where
  "tokens cur [] = (if cur = [] then [] else [cur])"
| "tokens cur (c # cs) =
     (if is_ascii_whitespace c then (if cur = [] then tokens [] cs else cur # tokens [] cs)
      else tokens (cur @ [c]) cs)"

text \<open>
  Class names and identifiers are compared exactly, and in a document in quirks mode
  without regard to the case of ASCII letters.
\<close>

definition ascii_lower :: "code_unit \<Rightarrow> code_unit" where
  "ascii_lower c = (if 0x41 \<le> c \<and> c \<le> 0x5A then c + 0x20 else c)"

definition same_name :: "bool \<Rightarrow> ustring \<Rightarrow> ustring \<Rightarrow> bool" where
  "same_name quirks a b \<longleftrightarrow> (if quirks then map ascii_lower a = map ascii_lower b else a = b)"

fun matches :: "bool \<Rightarrow> selector \<Rightarrow> node \<Rightarrow> bool" where
  "matches q sel (Text s) = False"
| "matches q (Tag t) (Elem t' attrs cs) = (t' = t)"
| "matches q (Class c) (Elem t' attrs cs) =
     (case map_of attrs ''class'' of
        None \<Rightarrow> False
      | Some v \<Rightarrow> list_ex (same_name q (str c)) (tokens [] v))"
| "matches q (Id i) (Elem t' attrs cs) =
     (case map_of attrs ''id'' of None \<Rightarrow> False | Some v \<Rightarrow> same_name q (str i) v)"
| "matches q (TagWithAttr t a) (Elem t' attrs cs) = (t' = t \<and> map_of attrs a \<noteq> None)"
| "matches q (TagAttrEq t a v) (Elem t' attrs cs) = (t' = t \<and> map_of attrs a = Some (str v))"

text \<open>The nodes below a node, in document order (the node itself is not among them).\<close>

fun descendants :: "node \<Rightarrow> node list" where
  "descendants (Text s) = []"
| "descendants (Elem t attrs cs) = concat (map (\<lambda>c. c # descendants c) cs)"

text \<open>\<^verbatim>\<open>document.querySelectorAll(sel)\<close> searches the whole tree, its root element included,
  in document order; \<^verbatim>\<open>document.querySelector(sel)\<close> is the first match.\<close>

definition querySelectorAll :: "document \<Rightarrow> selector \<Rightarrow> node list" where
  "querySelectorAll d sel =
     filter (matches (quirks_mode d) sel) (root d # descendants (root d))"

definition querySelector :: "document \<Rightarrow> selector \<Rightarrow> node option" where
  "querySelector d sel = (case querySelectorAll d sel of [] \<Rightarrow> None | el # _ \<Rightarrow> Some el)"

text \<open>\<^verbatim>\<open>document.body\<close>: the first \<^verbatim>\<open>body\<close> or \<^verbatim>\<open>frameset\<close> child of the \<^verbatim>\<open>html\<close> root
  element, \<^verbatim>\<open>null\<close> without one.\<close>

definition is_body :: "node \<Rightarrow> bool" where
  "is_body n \<longleftrightarrow> matches False (Tag ''body'') n \<or> matches False (Tag ''frameset'') n"

definition document_body :: "document \<Rightarrow> node option" where
  "document_body d =
     (case root d of
        Text s \<Rightarrow> None
      | Elem t attrs cs \<Rightarrow> if t = ''html'' then find is_body cs else None)"

text \<open>
  \<^verbatim>\<open>el.querySelectorAll(sel).forEach(e => e.remove())\<close> on a clone: every element below
  \<open>el\<close> that matches is detached, with all that it contains.
\<close>

fun remove_matching :: "bool \<Rightarrow> selector \<Rightarrow> node \<Rightarrow> node" where
  "remove_matching q sel (Text s) = Text s"
| "remove_matching q sel (Elem t attrs cs) =
     Elem t attrs (map (remove_matching q sel) (filter (\<lambda>c. \<not> matches q sel c) cs))"

definition remove_all :: "bool \<Rightarrow> selector list \<Rightarrow> node \<Rightarrow> node" where
  "remove_all q sels el = fold (remove_matching q) sels el"

text \<open>\<^verbatim>\<open>{ url, text }\<close>, an outbound link.\<close>

record link =
  l_url :: ustring
  l_text :: ustring

section \<open>\<^verbatim>\<open>src/utils/content-extractor.ts\<close>: the extractor of the traversal\<close>

definition contentSelectors :: "selector list" where
  "contentSelectors =
     [Tag ''article'', Tag ''main'', Class ''content'', Id ''content'', Class ''post-content'',
      Class ''entry-content'', Class ''article-content'', Class ''article-body'',
      Class ''post-body'']"

definition excludeSelectors :: "selector list" where
  "excludeSelectors =
     [Tag ''nav'', Tag ''header'', Tag ''footer'', Class ''navigation'', Class ''menu'',
      Class ''sidebar'', Class ''ads'', Class ''advertisement'', Class ''comments'',
      Class ''related'', Class ''share'', Class ''social'']"

text \<open>
  The loop over \<^verbatim>\<open>contentSelectors\<close>: \<^verbatim>\<open>document.querySelector(selector)\<close> is the first
  match in document order; it is returned, trimmed, when its trimmed text is longer than
  100.
\<close>

fun first_long_match :: "document \<Rightarrow> selector list \<Rightarrow> ustring option" where
  "first_long_match d [] = None"
| "first_long_match d (sel # sels) =
     (case querySelector d sel of
        None \<Rightarrow> first_long_match d sels
      | Some element \<Rightarrow>
          if textContent element \<noteq> [] \<and> 100 < length (trim (textContent element))
          then Some (trim (textContent element))
          else first_long_match d sels)"

text \<open>
  What follows the loop when it returned nothing: the body is cloned, the excluded
  elements are removed from the clone, and its trimmed text, or \<^verbatim>\<open>"No content found"\<close>, is
  returned. Without a body, \<^verbatim>\<open>body.cloneNode\<close> throws (\<open>Inl\<close>).
\<close>

definition body_fallback :: "document \<Rightarrow> string + ustring" where
  "body_fallback d =
     (case document_body d of
        None \<Rightarrow> Inl ''TypeError: Cannot read properties of null''
      | Some body \<Rightarrow>
          (let cleaned = trim (textContent (remove_all (quirks_mode d) excludeSelectors body))
           in Inr (if cleaned = [] then str ''No content found'' else cleaned)))"

text \<open>\<^verbatim>\<open>extractMainContent\<close>.\<close>

definition extractMainContent :: "document \<Rightarrow> string + ustring" where
  "extractMainContent d =
     (case first_long_match d contentSelectors of
        Some content \<Rightarrow> Inr content
      | None \<Rightarrow> body_fallback d)"

text \<open>
  \<^verbatim>\<open>extractLinks\<close>: the \<^verbatim>\<open>forEach\<close> over \<^verbatim>\<open>document.querySelectorAll('a[href]')\<close>, the
  array \<^verbatim>\<open>links\<close> passed along. A throwing \<^verbatim>\<open>new URL\<close> ends the evaluation (\<open>Inl\<close>).
\<close>

text \<open>\<^verbatim>\<open>!href || href.startsWith('javascript:') || ...\<close>: the links that are skipped
  before they are resolved.\<close>

definition special_link :: "ustring \<Rightarrow> bool" where
  "special_link href \<longleftrightarrow>
     href = [] \<or> startsWith href (str ''javascript:'') \<or> startsWith href (str ''mailto:'') \<or>
     startsWith href (str ''tel:'') \<or> startsWith href (str ''#'')"

fun extractLinks_forEach :: "document \<Rightarrow> node list \<Rightarrow> link list \<Rightarrow> string + link list" where
  "extractLinks_forEach d [] links = Inr links"
| "extractLinks_forEach d (anchor # anchors) links =
     (case getAttribute anchor ''href'' of
        None \<Rightarrow> extractLinks_forEach d anchors links
      | Some href \<Rightarrow>
          if special_link href then extractLinks_forEach d anchors links
          else
            (case new_URL d href of
               None \<Rightarrow> Inl ''TypeError: Invalid URL''
             | Some url \<Rightarrow>
                 (let trimmed = trim (textContent anchor);
                      text = (if trimmed = [] then url else trimmed)
                  in if text \<noteq> [] \<and> startsWith url (location_origin d)
                     then extractLinks_forEach d anchors (links @ [\<lparr>l_url = url, l_text = text\<rparr>])
                     else extractLinks_forEach d anchors links)))"

definition extractLinks :: "document \<Rightarrow> string + link list" where
  "extractLinks d = extractLinks_forEach d (querySelectorAll d (TagWithAttr ''a'' ''href'')) []"

text \<open>\<^verbatim>\<open>a || b\<close> on attribute values: \<^verbatim>\<open>null\<close> and the empty string are falsy.\<close>

fun truthy :: "ustring option \<Rightarrow> bool" where
  "truthy None = False"
| "truthy (Some s) = (s \<noteq> [])"

definition content_of :: "document \<Rightarrow> selector \<Rightarrow> ustring option" where
  "content_of d sel =
     (case querySelector d sel of None \<Rightarrow> None | Some el \<Rightarrow> getAttribute el ''content'')"

text \<open>\<^verbatim>\<open>extractMetadata\<close>: the title and the description.\<close>

definition extractMetadata :: "document \<Rightarrow> ustring \<times> ustring" where
  "extractMetadata d =
     (doc_title d,
      (let a = content_of d (TagAttrEq ''meta'' ''name'' ''description'');
           b = content_of d (TagAttrEq ''meta'' ''property'' ''og:description'')
       in if truthy a then the a else if truthy b then the b else []))"

section \<open>\<^verbatim>\<open>src/content-extractor.ts\<close>: the class \<^verbatim>\<open>ContentExtractor\<close>\<close>

definition CE_contentSelectors :: "selector list" where
  "CE_contentSelectors =
     [Tag ''article'', Tag ''main'', Class ''post-content'', Class ''entry-content'',
      Class ''content'', Id ''content'', Class ''post'', Class ''article'', Class ''blog-post'']"

definition elementsToIgnore :: "selector list" where
  "elementsToIgnore =
     [Tag ''nav'', Tag ''header'', Tag ''footer'', Tag ''aside'', Class ''sidebar'',
      Class ''menu'', Class ''navigation'', Class ''ads'', Class ''advertisement'',
      Class ''related'', Class ''comments'']"

text \<open>
  The \<^verbatim>\<open>forEach\<close> that finds the largest element, \<^verbatim>\<open>maxLength\<close> and \<^verbatim>\<open>maxElement\<close>
  passed along: a later element wins only when strictly longer.
\<close>

fun largest :: "node list \<Rightarrow> nat \<Rightarrow> node option \<Rightarrow> node option" where
  "largest [] maxLength maxElement = maxElement"
| "largest (el # els) maxLength maxElement =
     (if maxLength < length (textContent el)
      then largest els (length (textContent el)) (Some el)
      else largest els maxLength maxElement)"

text \<open>The loop over the selectors: \<open>None\<close> when it ends with \<^verbatim>\<open>contentElement\<close> still
  \<^verbatim>\<open>null\<close>.\<close>

fun select_content :: "document \<Rightarrow> selector list \<Rightarrow> node option" where
  "select_content d [] = None"
| "select_content d (sel # sels) =
     (case querySelectorAll d sel of
        [] \<Rightarrow> select_content d sels
      | [el] \<Rightarrow> Some el
      | el # el' # els \<Rightarrow>
          (case largest (el # el' # els) 0 None of
             Some maxElement \<Rightarrow> Some maxElement
           | None \<Rightarrow> select_content d sels))"

text \<open>
  The density analysis keeps a \<^verbatim>\<open>Map\<close> from elements to counts. Its keys are elements by
  identity, here the path from the root (the child indices); a \<^verbatim>\<open>Map\<close> iterates in the
  order of first insertion.
\<close>

type_synonym path = "nat list"

fun descendants_at :: "path \<Rightarrow> node \<Rightarrow> (path \<times> node) list"
  and children_at :: "path \<Rightarrow> nat \<Rightarrow> node list \<Rightarrow> (path \<times> node) list" where
  "descendants_at p (Text s) = []"
| "descendants_at p (Elem t attrs cs) = children_at p 0 cs"
| "children_at p i [] = []"
| "children_at p i (c # cs) =
     (p @ [i], c) # descendants_at (p @ [i]) c @ children_at p (Suc i) cs"

fun node_at :: "node \<Rightarrow> path \<Rightarrow> node option" where
  "node_at n [] = Some n"
| "node_at (Text s) (i # p) = None"
| "node_at (Elem t attrs cs) (i # p) = (if i < length cs then node_at (cs ! i) p else None)"

definition document_body_path :: "document \<Rightarrow> path option" where
  "document_body_path d =
     (case root d of
        Text s \<Rightarrow> None
      | Elem t attrs cs \<Rightarrow>
          if t = ''html''
          then map_option (\<lambda>ic. [fst ic]) (find (\<lambda>ic. is_body (snd ic)) (zip [0..<length cs] cs))
          else None)"

text \<open>\<^verbatim>\<open>while (current && current !== document.body)\<close>: the element, its parent, and so
  on, up to the root element or to just below the body.\<close>

definition ancestor_chain :: "path option \<Rightarrow> path \<Rightarrow> path list" where
  "ancestor_chain body p =
     takeWhile (\<lambda>q. Some q \<noteq> body) (map (\<lambda>n. take n p) (rev [0..<Suc (length p)]))"

fun count_up :: "path \<Rightarrow> (path \<times> nat) list \<Rightarrow> (path \<times> nat) list" where
  "count_up k [] = [(k, 1)]"
| "count_up k ((k', n) # m) = (if k' = k then (k', n + 1) # m else (k', n) # count_up k m)"

fun highest_count :: "(path \<times> nat) list \<Rightarrow> nat \<Rightarrow> path option \<Rightarrow> path option" where
  "highest_count [] maxCount bestAncestor = bestAncestor"
| "highest_count ((element, count) # m) maxCount bestAncestor =
     (if maxCount < count then highest_count m count (Some element)
      else highest_count m maxCount bestAncestor)"

definition density_analysis :: "document \<Rightarrow> node option" where
  "density_analysis d =
     (let paragraphs =
            map fst (filter (\<lambda>pn. matches (quirks_mode d) (Tag ''p'') (snd pn))
                       (([], root d) # descendants_at [] (root d)));
          ancestors =
            fold (\<lambda>p m. fold count_up (ancestor_chain (document_body_path d) p) m) paragraphs []
      in case highest_count ancestors 0 None of
           None \<Rightarrow> None
         | Some bestAncestor \<Rightarrow> node_at (root d) bestAncestor)"

text \<open>The element that \<^verbatim>\<open>contentElement\<close> ends up as: what the loop selected, else what
  the density analysis found, else the body.\<close>

definition CE_content_element :: "document \<Rightarrow> node option" where
  "CE_content_element d =
     (case select_content d CE_contentSelectors of
        Some el \<Rightarrow> Some el
      | None \<Rightarrow>
          (case density_analysis d of
             Some el \<Rightarrow> Some el
           | None \<Rightarrow> document_body d))"

text \<open>The text of the selected element: cloned, the ignored elements and the scripts,
  styles and frames removed, the two replacements made, and trimmed.\<close>

definition CE_text_of :: "bool \<Rightarrow> node \<Rightarrow> ustring" where
  "CE_text_of q el =
     (let clonedContent =
            remove_all q [Tag ''script'', Tag ''style'', Tag ''iframe'', Tag ''noscript'']
              (remove_all q elementsToIgnore el)
      in trim (replace_backslash_run (of_char CHR ''n'') [0x5C, of_char CHR ''n'']
                 (replace_backslash_run (of_char CHR ''s'') (str '' '')
                    (textContent clonedContent))))"

text \<open>\<^verbatim>\<open>ContentExtractor.extractMainContent\<close>. Using a missing body throws (\<open>Inl\<close>).\<close>

definition CE_extractMainContent :: "document \<Rightarrow> string + ustring" where
  "CE_extractMainContent d =
     (case CE_content_element d of
        None \<Rightarrow> Inl ''TypeError: Cannot read properties of null''
      | Some el \<Rightarrow> Inr (CE_text_of (quirks_mode d) el))"

text \<open>
  \<^verbatim>\<open>ContentExtractor.extractLinks\<close>: the \<^verbatim>\<open>forEach\<close> over the anchors, with the array
  \<^verbatim>\<open>links\<close> and the set \<^verbatim>\<open>seen\<close> passed along, and \<^verbatim>\<open>links.slice(0, 10)\<close> at the end.
\<close>

definition not_a_content_page :: "ustring \<Rightarrow> bool" where
  "not_a_content_page url \<longleftrightarrow>
     str_includes url (str ''/cdn-cgi/'') \<or> str_includes url (str ''/wp-admin/'') \<or>
     endsWith url (str ''.jpg'') \<or> endsWith url (str ''.jpeg'') \<or>
     endsWith url (str ''.png'') \<or> endsWith url (str ''.gif'') \<or>
     endsWith url (str ''.pdf'') \<or> endsWith url (str ''.zip'')"

fun CE_extractLinks_forEach ::
  "document \<Rightarrow> node list \<Rightarrow> link list \<Rightarrow> ustring set \<Rightarrow> string + link list" where
  "CE_extractLinks_forEach d [] links seen = Inr (take 10 links)"
| "CE_extractLinks_forEach d (anchor # anchors) links seen =
     (case getAttribute anchor ''href'' of
        None \<Rightarrow> CE_extractLinks_forEach d anchors links seen
      | Some href \<Rightarrow>
          if href = [] then CE_extractLinks_forEach d anchors links seen
          else
            (case new_URL d href of
               None \<Rightarrow> Inl ''TypeError: Invalid URL''
             | Some url \<Rightarrow>
                 if \<not> startsWith url (str ''http'') \<or> url \<in> seen
                 then CE_extractLinks_forEach d anchors links seen
                 else if not_a_content_page url
                 then CE_extractLinks_forEach d anchors links seen
                 else
                   (let text = clean_text (textContent anchor)
                    in if 1 < length text
                       then CE_extractLinks_forEach d anchors
                              (links @ [\<lparr>l_url = url, l_text = text\<rparr>]) (insert url seen)
                       else CE_extractLinks_forEach d anchors links seen)))"

definition CE_extractLinks :: "document \<Rightarrow> string + link list" where
  "CE_extractLinks d =
     CE_extractLinks_forEach d (querySelectorAll d (TagWithAttr ''a'' ''href'')) [] {}"

section \<open>Fetching one page\<close>

text \<open>
  The browser is outside the program. One call of a fetch operation meets a
  \<open>browser_run\<close>: which of the awaited operations reject, with which message, and the
  document that is loaded when the navigation succeeds. The events record what happens to
  the page the browser creates. Error messages are only passed on, never looked into.
\<close>

datatype step =
    GetBrowser | NewPage | SetUserAgent | Goto | PageTitle
  | Evaluate_Metadata | Evaluate_MainContent | Evaluate_Links | PageClose

record browser_run =
  fails :: "step \<Rightarrow> string option"
  loaded :: document

datatype page_event = PageCreated | PageClosed

record PageContent =
  pc_url :: ustring
  pc_title :: ustring
  pc_description :: ustring
  pc_content :: ustring
  pc_links :: "link list"

record ExtractedContent =
  ec_url :: ustring
  ec_title :: ustring
  ec_content :: ustring
  ec_links :: "link list"
  ec_error :: "string option"

text \<open>An awaited operation: it rejects, or the rest runs.\<close>

definition await :: "browser_run \<Rightarrow> step \<Rightarrow> (string + 'a) \<Rightarrow> (string + 'a)" where
  "await b st rest = (case fails b st of Some e \<Rightarrow> Inl e | None \<Rightarrow> rest)"

definition and_then :: "(string + 'a) \<Rightarrow> ('a \<Rightarrow> string + 'b) \<Rightarrow> (string + 'b)" where
  "and_then r k = (case r of Inl e \<Rightarrow> Inl e | Inr v \<Rightarrow> k v)"

subsection \<open>\<^verbatim>\<open>extractContentFromUrl\<close> (the file of \<^verbatim>\<open>performDeepSearch\<close>)\<close>

text \<open>The \<^verbatim>\<open>try\<close> block.\<close>

definition extractContentFromUrl_try :: "browser_run \<Rightarrow> ustring \<Rightarrow> string + PageContent" where
  "extractContentFromUrl_try b url =
     await b SetUserAgent
    (await b Goto
    (await b Evaluate_Metadata
    (let metadata = extractMetadata (loaded b) in
     await b Evaluate_MainContent
    (and_then (extractMainContent (loaded b)) (\<lambda>content.
     await b Evaluate_Links
    (and_then (extractLinks (loaded b)) (\<lambda>links.
     Inr \<lparr>pc_url = url, pc_title = fst metadata, pc_description = snd metadata,
          pc_content = content, pc_links = links\<rparr>)))))))"

text \<open>
  \<^verbatim>\<open>getBrowser()\<close> and \<^verbatim>\<open>browser.newPage()\<close> stand before the \<^verbatim>\<open>try\<close>; the \<^verbatim>\<open>catch\<close>
  throws the error again; the \<^verbatim>\<open>finally\<close> awaits \<^verbatim>\<open>page.close()\<close>, whose rejection
  replaces the outcome.
\<close>

definition extractContentFromUrl_run ::
  "browser_run \<Rightarrow> ustring \<Rightarrow> (string + PageContent) \<times> page_event list" where
  "extractContentFromUrl_run b url =
     (case fails b GetBrowser of
        Some e \<Rightarrow> (Inl e, [])
      | None \<Rightarrow>
          (case fails b NewPage of
             Some e \<Rightarrow> (Inl e, [])
           | None \<Rightarrow>
               (let outcome = extractContentFromUrl_try b url
                in (await b PageClose outcome, [PageCreated, PageClosed]))))"

definition extractContentFromUrl :: "browser_run \<Rightarrow> ustring \<Rightarrow> string + PageContent" where
  "extractContentFromUrl b url = fst (extractContentFromUrl_run b url)"

subsection \<open>\<^verbatim>\<open>ContentExtractor.extractContent\<close> and \<^verbatim>\<open>BrowserManager.newPage\<close>\<close>

text \<open>\<^verbatim>\<open>browserManager.newPage()\<close> of \<^verbatim>\<open>src/browser-manager.ts\<close>: the page is created, then
  configured; a failing \<^verbatim>\<open>setUserAgent\<close> rejects the call after the page was created.\<close>

definition BrowserManager_newPage :: "browser_run \<Rightarrow> (string + unit) \<times> page_event list" where
  "BrowserManager_newPage b =
     (case fails b GetBrowser of
        Some e \<Rightarrow> (Inl e, [])
      | None \<Rightarrow>
          (case fails b NewPage of
             Some e \<Rightarrow> (Inl e, [])
           | None \<Rightarrow>
               (case fails b SetUserAgent of
                  Some e \<Rightarrow> (Inl e, [PageCreated])
                | None \<Rightarrow> (Inr (), [PageCreated]))))"

text \<open>The \<^verbatim>\<open>try\<close> block after \<^verbatim>\<open>page = await browserManager.newPage()\<close>.\<close>

definition CE_extractContent_try :: "browser_run \<Rightarrow> ustring \<Rightarrow> string + ExtractedContent" where
  "CE_extractContent_try b url =
     await b Goto
    (await b PageTitle
    (await b Evaluate_MainContent
    (and_then (CE_extractMainContent (loaded b)) (\<lambda>content.
     await b Evaluate_Links
    (and_then (CE_extractLinks (loaded b)) (\<lambda>links.
     Inr \<lparr>ec_url = url, ec_title = doc_title (loaded b), ec_content = content,
          ec_links = links, ec_error = None\<rparr>))))))"

text \<open>The value the \<^verbatim>\<open>catch\<close> block returns.\<close>

definition error_content :: "ustring \<Rightarrow> string \<Rightarrow> ExtractedContent" where
  "error_content url e =
     \<lparr>ec_url = url, ec_title = str ''Error'', ec_content = [], ec_links = [],
      ec_error = Some e\<rparr>"

text \<open>
  \<^verbatim>\<open>extractContent\<close>: \<open>Inl\<close> would be an error thrown to the caller. The \<^verbatim>\<open>finally\<close>
  closes the page when the variable \<^verbatim>\<open>page\<close> is set, and catches what closing rejects
  with.
\<close>

definition CE_extractContent_run ::
  "browser_run \<Rightarrow> ustring \<Rightarrow> (string + ExtractedContent) \<times> page_event list" where
  "CE_extractContent_run b url =
     (let acquired = BrowserManager_newPage b;
          attempted = and_then (fst acquired) (\<lambda>page. CE_extractContent_try b url);
          caught = (case attempted of Inl e \<Rightarrow> Inr (error_content url e) | Inr c \<Rightarrow> Inr c)
      in case fst acquired of
           Inl e \<Rightarrow> (caught, snd acquired)
         | Inr page \<Rightarrow> (caught, snd acquired @ [PageClosed]))"


section \<open>The traversal: \<^verbatim>\<open>performDeepSearch\<close>\<close>

text \<open>
  The world gives the browser's behaviour for each call of \<^verbatim>\<open>extractContentFromUrl\<close>: for
  the \<open>n\<close>-th call of a traversal (counted from 0) and its URL. Fetching the same URL twice
  could so give two answers.
\<close>

type_synonym world = "nat \<Rightarrow> ustring \<Rightarrow> browser_run"

text \<open>\<^verbatim>\<open>DeepSearchOptions\<close>: both fields optional; the numbers are integers.\<close>

record DeepSearchOptions =
  opt_depth :: "int option"
  opt_maxPages :: "int option"

text \<open>
  The variables of the loop: \<^verbatim>\<open>queue\<close> (URL and \<^verbatim>\<open>currentDepth\<close>), \<^verbatim>\<open>visitedUrls\<close> and
  \<^verbatim>\<open>results\<close>. Two more fields are not in the program and never read by it; they record
  its history for the theorems: \<open>enqueued\<close>, the entries put on the queue, in that
  order; \<open>dequeued\<close>, the entries taken off the queue, one for each run of the loop's body;
  and \<open>attempts\<close>, the calls of \<^verbatim>\<open>extractContentFromUrl\<close>, each with the depth of its
  entry and whether the call returned a page.
\<close>

record search_state =
  queue :: "(ustring \<times> int) list"
  visitedUrls :: "ustring set"
  results :: "PageContent list"
  enqueued :: "(ustring \<times> int) list"
  dequeued :: "(ustring \<times> int) list"
  attempts :: "(ustring \<times> int \<times> bool) list"

definition initial_state :: "ustring list \<Rightarrow> search_state" where
  "initial_state initialUrls =
     \<lparr>queue = map (\<lambda>url. (url, 1)) initialUrls, visitedUrls = {}, results = [],
      enqueued = map (\<lambda>url. (url, 1)) initialUrls, dequeued = [], attempts = []\<rparr>"

text \<open>\<^verbatim>\<open>queue.length > 0 && results.length < maxPages\<close>\<close>

definition loop_cond :: "int \<Rightarrow> search_state \<Rightarrow> bool" where
  "loop_cond maxPages s \<longleftrightarrow> queue s \<noteq> [] \<and> int (length (results s)) < maxPages"

text \<open>The links that one page adds to the queue.\<close>

definition linkedPages :: "ustring set \<Rightarrow> int \<Rightarrow> PageContent \<Rightarrow> (ustring \<times> int) list" where
  "linkedPages visited currentDepth pageContent =
     map (\<lambda>l. (l_url l, currentDepth + 1))
       (filter (\<lambda>l. l_url l \<notin> visited) (pc_links pageContent))"

text \<open>The body of the loop. The queue is not empty when it runs.\<close>

definition loop_body :: "world \<Rightarrow> int \<Rightarrow> int \<Rightarrow> search_state \<Rightarrow> search_state" where
  "loop_body w depth maxPages s =
     (case queue s of
        [] \<Rightarrow> s
      | (url, currentDepth) # rest \<Rightarrow>
          if url \<in> visitedUrls s \<or> maxPages \<le> int (length (results s))
          then s\<lparr>queue := rest, dequeued := dequeued s @ [(url, currentDepth)]\<rparr>
          else
            (case extractContentFromUrl (w (length (attempts s)) url) url of
               Inl e \<Rightarrow>
                 s\<lparr>queue := rest,
                   visitedUrls := insert url (visitedUrls s),
                   dequeued := dequeued s @ [(url, currentDepth)],
                   attempts := attempts s @ [(url, currentDepth, False)]\<rparr>
             | Inr pageContent \<Rightarrow>
                 s\<lparr>queue :=
                     (if currentDepth < depth
                      then rest @ linkedPages (insert url (visitedUrls s)) currentDepth pageContent
                      else rest),
                   visitedUrls := insert url (visitedUrls s),
                   results := results s @ [pageContent],
                   enqueued :=
                     (if currentDepth < depth
                      then enqueued s @
                           linkedPages (insert url (visitedUrls s)) currentDepth pageContent
                      else enqueued s),
                   dequeued := dequeued s @ [(url, currentDepth)],
                   attempts := attempts s @ [(url, currentDepth, True)]\<rparr>))"

text \<open>
  \<^verbatim>\<open>options.depth || 1\<close> and \<^verbatim>\<open>options.maxPages || 5\<close>, then the loop. \<open>None\<close> is a loop
  that never ends.
\<close>

definition performDeepSearch_run ::
  "world \<Rightarrow> ustring list \<Rightarrow> DeepSearchOptions \<Rightarrow> search_state option" where
  "performDeepSearch_run w initialUrls options =
     (let depth = or_default (opt_depth options) 1;
          maxPages = or_default (opt_maxPages options) 5
      in while_option (loop_cond maxPages) (loop_body w depth maxPages)
           (initial_state initialUrls))"

definition performDeepSearch ::
  "world \<Rightarrow> ustring list \<Rightarrow> DeepSearchOptions \<Rightarrow> PageContent list option" where
  "performDeepSearch w initialUrls options =
     map_option results (performDeepSearch_run w initialUrls options)"

section \<open>Invariants of the loop\<close>

text \<open>The entries (URL and depth) of the calls that returned a page, in order.\<close>

definition succeeded :: "(ustring \<times> int \<times> bool) list \<Rightarrow> (ustring \<times> int) list" where
  "succeeded as = map (\<lambda>a. (fst a, fst (snd a))) (filter (\<lambda>a. snd (snd a)) as)"

definition inv_budget :: "int \<Rightarrow> search_state \<Rightarrow> bool" where
  "inv_budget maxPages s \<longleftrightarrow> int (length (results s)) \<le> max 0 maxPages"

text \<open>The visited set is the set of the URLs fetched, no URL is fetched twice, and the
  results are the pages of the calls that returned, in order.\<close>

definition inv_visited :: "search_state \<Rightarrow> bool" where
  "inv_visited s \<longleftrightarrow>
     visitedUrls s = set (map fst (attempts s)) \<and>
     distinct (map fst (attempts s)) \<and>
     map pc_url (results s) = map fst (succeeded (attempts s))"

text \<open>The flag of an attempt says whether that call returned a page.\<close>

definition inv_flags :: "world \<Rightarrow> search_state \<Rightarrow> bool" where
  "inv_flags w s \<longleftrightarrow>
     (\<forall>i \<in> {..<length (attempts s)}.
        snd (snd (attempts s ! i)) =
          (\<exists>p. extractContentFromUrl (w i (fst (attempts s ! i))) (fst (attempts s ! i)) = Inr p))"

text \<open>First in, first out; the depths never decrease along the queue and differ by at most
  one within it; the fetched entries are among the dequeued ones, in their order.\<close>

definition inv_bfs :: "search_state \<Rightarrow> bool" where
  "inv_bfs s \<longleftrightarrow>
     enqueued s = dequeued s @ queue s \<and>
     sorted (map snd (enqueued s)) \<and>
     (\<forall>e \<in> set (queue s). \<forall>x \<in> set (queue s). snd e \<le> snd x + 1) \<and>
     subseq (map (\<lambda>a. (fst a, fst (snd a))) (attempts s)) (dequeued s)"

definition inv_enqueues :: "ustring list \<Rightarrow> search_state \<Rightarrow> bool" where
  "inv_enqueues seeds s \<longleftrightarrow>
     length (enqueued s)
       \<le> length seeds + sum_list (map (\<lambda>p. length (pc_links p)) (results s))"

text \<open>
  \<open>discovered w as n u\<close>: one of the first \<open>n\<close> calls returned a page that has a link to
  \<open>u\<close>, and the string \<open>u\<close> starts with the string \<^verbatim>\<open>window.location.origin\<close> of the document
  that call loaded.
\<close>

definition discovered ::
  "world \<Rightarrow> (ustring \<times> int \<times> bool) list \<Rightarrow> nat \<Rightarrow> ustring \<Rightarrow> bool" where
  "discovered w as n u \<longleftrightarrow>
     (\<exists>j \<in> {..<n}.
        (case extractContentFromUrl (w j (fst (as ! j))) (fst (as ! j)) of
           Inl e \<Rightarrow> False
         | Inr p \<Rightarrow> u \<in> set (map l_url (pc_links p))) \<and>
        startsWith u (location_origin (loaded (w j (fst (as ! j))))))"

definition inv_origin :: "world \<Rightarrow> ustring list \<Rightarrow> search_state \<Rightarrow> bool" where
  "inv_origin w seeds s \<longleftrightarrow>
     (\<forall>e \<in> set (queue s).
        fst e \<in> set seeds \<or> discovered w (attempts s) (length (attempts s)) (fst e)) \<and>
     (\<forall>i \<in> {..<length (attempts s)}.
        fst (attempts s ! i) \<in> set seeds \<or> discovered w (attempts s) i (fst (attempts s ! i)))"

section \<open>What the extractors keep and select\<close>









section \<open>Example worlds\<close>

text \<open>A document at \<open>origin\<close> whose body is one anchor for each of \<open>hrefs\<close>, all absolute
  URLs that \<^verbatim>\<open>new URL\<close> leaves as they are.\<close>

definition example_document :: "ustring \<Rightarrow> ustring list \<Rightarrow> document" where
  "example_document origin hrefs =
     \<lparr>location_href = origin @ str ''/'', location_origin = origin, doc_title = str ''T'',
      quirks_mode = False,
      root = Elem ''html'' []
               [Elem ''body'' []
                  (map (\<lambda>h. Elem ''a'' [(''href'', h)] [Text (str ''more'')]) hrefs)],
      new_URL = (\<lambda>href. Some href)\<rparr>"

text \<open>Two sites, each front page linking to one page of its own; nothing fails.\<close>

definition example_world :: world where
  "example_world n url =
     \<lparr>fails = (\<lambda>st. None),
      loaded =
        (if url = str ''http://a/''
         then example_document (str ''http://a'') [str ''http://a/1'']
         else if url = str ''http://b/''
         then example_document (str ''http://b'') [str ''http://b/1'']
         else example_document (str ''http://c'') [])\<rparr>"

definition example_page :: "string \<Rightarrow> string \<Rightarrow> string list \<Rightarrow> PageContent" where
  "example_page url content hrefs =
     \<lparr>pc_url = str url, pc_title = str ''T'', pc_description = [], pc_content = str content,
      pc_links = map (\<lambda>h. \<lparr>l_url = str h, l_text = str ''more''\<rparr>) hrefs\<rparr>"

definition example_final :: search_state where
  "example_final =
     \<lparr>queue = [],
      visitedUrls =
        {str ''http://b/1'', str ''http://a/1'', str ''http://b/'', str ''http://a/''},
      results =
        [example_page ''http://a/'' ''more'' [''http://a/1''],
         example_page ''http://b/'' ''more'' [''http://b/1''],
         example_page ''http://a/1'' ''No content found'' [],
         example_page ''http://b/1'' ''No content found'' []],
      enqueued =
        [(str ''http://a/'', 1), (str ''http://b/'', 1),
         (str ''http://a/1'', 2), (str ''http://b/1'', 2)],
      dequeued =
        [(str ''http://a/'', 1), (str ''http://b/'', 1),
         (str ''http://a/1'', 2), (str ''http://b/1'', 2)],
      attempts =
        [(str ''http://a/'', 1, True), (str ''http://b/'', 1, True),
         (str ''http://a/1'', 2, True), (str ''http://b/1'', 2, True)]\<rparr>"




text \<open>An element with a tag and a text of \<open>n\<close> times the same letter.\<close>

definition text_element :: "string \<Rightarrow> nat \<Rightarrow> char \<Rightarrow> node" where
  "text_element t n c = Elem t [] [Text (replicate n (of_char c))]"








text \<open>A browser in which setting the user agent fails, and nothing else.\<close>

definition user_agent_fails :: browser_run where
  "user_agent_fails =
     \<lparr>fails = (\<lambda>st. if st = SetUserAgent
                    then Some ''Network.setUserAgentOverride timed out'' else None),
      loaded = example_document (str ''http://a'') []\<rparr>"

text \<open>The same two sites, but the navigation to the first front page fails.\<close>

definition flaky_world :: world where
  "flaky_world n url =
     \<lparr>fails = (\<lambda>st. if st = Goto \<and> url = str ''http://a/''
                    then Some ''net::ERR_CONNECTION_REFUSED'' else None),
      loaded = loaded (example_world n url)\<rparr>"

definition flaky_final :: search_state where
  "flaky_final =
     \<lparr>queue = [],
      visitedUrls = {str ''http://b/'', str ''http://a/''},
      results = [example_page ''http://b/'' ''more'' [''http://b/1'']],
      enqueued = [(str ''http://a/'', 1), (str ''http://b/'', 1)],
      dequeued = [(str ''http://a/'', 1), (str ''http://b/'', 1)],
      attempts = [(str ''http://a/'', 1, False), (str ''http://b/'', 1, True)]\<rparr>"

text \<open>A world in which every navigation fails.\<close>

definition failing_world :: world where
  "failing_world n url =
     \<lparr>fails = (\<lambda>st. if st = Goto then Some ''net::ERR_NAME_NOT_RESOLVED'' else None),
      loaded = example_document (str ''http://c'') []\<rparr>"

definition failing_final :: search_state where
  "failing_final =
     \<lparr>queue = [],
      visitedUrls = {str ''http://c/'', str ''http://b/'', str ''http://a/''},
      results = [],
      enqueued = [(str ''http://a/'', 1), (str ''http://b/'', 1), (str ''http://c/'', 1)],
      dequeued = [(str ''http://a/'', 1), (str ''http://b/'', 1), (str ''http://c/'', 1)],
      attempts =
        [(str ''http://a/'', 1, False), (str ''http://b/'', 1, False),
         (str ''http://c/'', 1, False)]\<rparr>"

text \<open>
  A page at \<^verbatim>\<open>http://a/\<close>, of origin \<^verbatim>\<open>http://a\<close>, with a link to \<^verbatim>\<open>http://a.evil.com/\<close>,
  a page of another host and so of another origin, \<^verbatim>\<open>http://a.evil.com\<close>.
\<close>

definition other_host_world :: world where
  "other_host_world n url =
     \<lparr>fails = (\<lambda>st. None),
      loaded =
        (if url = str ''http://a/''
         then example_document (str ''http://a'') [str ''http://a.evil.com/'']
         else example_document (str ''http://a.evil.com'') [])\<rparr>"

definition other_host_final :: search_state where
  "other_host_final =
     \<lparr>queue = [],
      visitedUrls = {str ''http://a.evil.com/'', str ''http://a/''},
      results =
        [example_page ''http://a/'' ''more'' [''http://a.evil.com/''],
         example_page ''http://a.evil.com/'' ''No content found'' []],
      enqueued = [(str ''http://a/'', 1), (str ''http://a.evil.com/'', 2)],
      dequeued = [(str ''http://a/'', 1), (str ''http://a.evil.com/'', 2)],
      attempts = [(str ''http://a/'', 1, True), (str ''http://a.evil.com/'', 2, True)]\<rparr>"

section \<open>Theorems: strings\<close>

lemma str_Nil [simp]: "str [] = []"
  by (simp add: str_def)

lemma length_str [simp]: "length (str s) = length s"
  by (simp add: str_def)

lemma str_eq_iff [simp]: "str s = str t \<longleftrightarrow> s = t"
  by (simp add: str_def inj_of_char)

lemma str_eq_Nil [simp]: "str s = [] \<longleftrightarrow> s = []" "[] = str s \<longleftrightarrow> s = []"
  by (auto simp: str_def)

lemma str_append [simp]: "str s @ str t = str (s @ t)"
  by (simp add: str_def)

lemma prefix_str [simp]: "prefix (str p) (str s) \<longleftrightarrow> prefix p s"
proof
  assume "prefix (str p) (str s)"
  then obtain r where r: "str s = str p @ r" by (auto simp: prefix_def)
  have "str (take (length p) s) = take (length p) (str s)"
    by (simp add: str_def take_map)
  also have "\<dots> = str p" by (simp add: r)
  finally have "take (length p) s = p" by simp
  then show "prefix p s" by (metis take_is_prefix)
next
  assume "prefix p s"
  then show "prefix (str p) (str s)" by (simp add: str_def map_mono_prefix)
qed

lemma rev_str: "rev (str s) = str (rev s)"
  by (simp add: str_def rev_map)

lemma startsWith_str [simp]: "startsWith (str s) (str p) \<longleftrightarrow> prefix p s"
  by (simp add: startsWith_def)

lemma endsWith_str [simp]: "endsWith (str s) (str p) \<longleftrightarrow> prefix (rev p) (rev s)"
  by (simp add: endsWith_def rev_str)

lemma str_Cons: "str (c # cs) = of_char c # str cs"
  by (simp add: str_def)

lemma str_includes_str [simp]: "str_includes (str s) (str p) \<longleftrightarrow> str_includes s p"
proof (induction s)
  case Nil
  then show ?case by simp
next
  case (Cons c cs)
  have "prefix (str p) (of_char c # str cs) \<longleftrightarrow> prefix p (c # cs)"
    using prefix_str[of p "c # cs"] by (simp add: str_Cons)
  with Cons show ?case by (simp add: str_Cons)
qed

text \<open>Trimming a literal: its characters decide.\<close>

lemma trim_str:
  "trim (str s) =
     str (rev (dropWhile (\<lambda>c. is_white_space (of_char c))
            (rev (dropWhile (\<lambda>c. is_white_space (of_char c)) s))))"
  by (simp add: trim_def str_def dropWhile_map rev_map comp_def)




section \<open>Theorems: parameter capping\<close>

lemma maxResults_range: "1 \<le> maxResults p \<and> maxResults p \<le> 10"
  by (cases p) (simp_all add: maxResults_def)

lemma maxDepth_clamped: "maxDepth p = clamped 1 3 1 p"
  by (cases p) (simp_all add: maxDepth_def)

lemma maxResults_clamped_nonzero: "p \<noteq> Reads 0 \<Longrightarrow> maxResults p = clamped 1 10 3 p"
  by (cases p) (simp_all add: maxResults_def)

text \<open>
  C6. The effective results parameter is the requested value clamped to \<open>[1, 10]\<close>, the
  effective depth the requested value clamped to \<open>[1, 3]\<close>. The depth is
  (\<open>maxDepth_clamped\<close>), and so is every results value but one
  (\<open>maxResults_clamped_nonzero\<close>): a request of \<open>results = 0\<close> is falsy, takes the
  default \<open>3\<close> of \<^verbatim>\<open>|| 3\<close>, and is not clamped to \<open>1\<close>, although \<open>-1\<close> is.
\<close>

theorem C6_results_zero_takes_default:
  "maxResults (Reads 0) = 3 \<and> clamped 1 10 3 (Reads 0) = 1 \<and> maxResults (Reads (- 1)) = 1
   \<and> maxResults (Reads 50) = 10 \<and> maxDepth (Reads 0) = 1"
  by (simp add: maxResults_def maxDepth_def)


section \<open>Theorems: the traversal\<close>

subsection \<open>One run of the loop's body\<close>

lemma extractContentFromUrl_url:
  "extractContentFromUrl b url = Inr p \<Longrightarrow> pc_url p = url"
  by (auto simp: extractContentFromUrl_def extractContentFromUrl_run_def
      extractContentFromUrl_try_def await_def and_then_def Let_def
      split: option.splits sum.splits)

lemma loop_body_cases [consumes 1, case_names skip fail ok]:
  assumes q: "queue s = (url, cd) # rest"
  obtains
    (skip) "url \<in> visitedUrls s \<or> maxPages \<le> int (length (results s))"
      "loop_body w depth maxPages s = s\<lparr>queue := rest, dequeued := dequeued s @ [(url, cd)]\<rparr>"
  | (fail) e where "url \<notin> visitedUrls s" "int (length (results s)) < maxPages"
      "extractContentFromUrl (w (length (attempts s)) url) url = Inl e"
      "loop_body w depth maxPages s =
         s\<lparr>queue := rest, visitedUrls := insert url (visitedUrls s),
           dequeued := dequeued s @ [(url, cd)],
           attempts := attempts s @ [(url, cd, False)]\<rparr>"
  | (ok) p where "url \<notin> visitedUrls s" "int (length (results s)) < maxPages"
      "extractContentFromUrl (w (length (attempts s)) url) url = Inr p"
      "loop_body w depth maxPages s =
         s\<lparr>queue := (if cd < depth
                      then rest @ linkedPages (insert url (visitedUrls s)) cd p else rest),
           visitedUrls := insert url (visitedUrls s),
           results := results s @ [p],
           enqueued := (if cd < depth
                      then enqueued s @ linkedPages (insert url (visitedUrls s)) cd p
                      else enqueued s),
           dequeued := dequeued s @ [(url, cd)],
           attempts := attempts s @ [(url, cd, True)]\<rparr>"
proof (cases "url \<in> visitedUrls s \<or> maxPages \<le> int (length (results s))")
  case True
  then show ?thesis using q skip by (simp add: loop_body_def)
next
  case False
  show ?thesis
  proof (cases "extractContentFromUrl (w (length (attempts s)) url) url")
    case (Inl e)
    then show ?thesis using q False fail[of e] by (simp add: loop_body_def)
  next
    case (Inr p)
    then show ?thesis using q False ok[of p] by (simp add: loop_body_def)
  qed
qed






subsection \<open>The invariants hold initially and are kept by the body\<close>

lemma inv_budget_initial: "inv_budget maxPages (initial_state seeds)"
  by (simp add: inv_budget_def initial_state_def)

lemma inv_budget_step:
  assumes "inv_budget maxPages s" "loop_cond maxPages s"
  shows "inv_budget maxPages (loop_body w depth maxPages s)"
proof -
  from assms(2) obtain url cd rest where q: "queue s = (url, cd) # rest"
    by (cases "queue s") (auto simp: loop_cond_def)
  from q show ?thesis
  proof (cases rule: loop_body_cases[where w = w and depth = depth and maxPages = maxPages])
    case skip
    then show ?thesis using assms(1) by (simp add: inv_budget_def)
  next
    case (fail e)
    then show ?thesis using assms(1) by (simp add: inv_budget_def)
  next
    case (ok p)
    then show ?thesis by (simp add: inv_budget_def)
  qed
qed

lemma inv_visited_initial: "inv_visited (initial_state seeds)"
  by (simp add: inv_visited_def initial_state_def succeeded_def)

lemma inv_visited_step:
  assumes "inv_visited s" "loop_cond maxPages s"
  shows "inv_visited (loop_body w depth maxPages s)"
proof -
  from assms(2) obtain url cd rest where q: "queue s = (url, cd) # rest"
    by (cases "queue s") (auto simp: loop_cond_def)
  from q show ?thesis
  proof (cases rule: loop_body_cases[where w = w and depth = depth and maxPages = maxPages])
    case skip
    then show ?thesis using assms(1) by (simp add: inv_visited_def)
  next
    case (fail e)
    then show ?thesis using assms(1) by (auto simp: inv_visited_def succeeded_def)
  next
    case (ok p)
    then show ?thesis using assms(1) extractContentFromUrl_url[OF ok(3)]
      by (auto simp: inv_visited_def succeeded_def)
  qed
qed

lemma sorted_const: "sorted (map (\<lambda>x. c) (xs :: 'a list))" for c :: int
  by (induction xs) auto

lemma inv_bfs_initial: "inv_bfs (initial_state seeds)"
  by (simp add: inv_bfs_def initial_state_def comp_def sorted_const)

lemma near_pairs:
  fixes cd :: int
  assumes "\<forall>e \<in> set xs. snd e \<le> cd + 1 \<and> cd \<le> snd e"
  shows "\<forall>e \<in> set xs. \<forall>x \<in> set xs. snd e \<le> snd x + 1"
proof (intro ballI)
  fix e x assume "e \<in> set xs" "x \<in> set xs"
  with assms have "snd e \<le> cd + 1" "cd \<le> snd x" by auto
  then show "snd e \<le> snd x + 1" by linarith
qed

lemma linkedPages_depth: "e \<in> set (linkedPages v cd p) \<Longrightarrow> snd e = cd + 1"
  by (auto simp: linkedPages_def)

lemma sorted_linkedPages: "sorted (map snd (linkedPages v cd p))"
  by (simp add: linkedPages_def comp_def sorted_const)

lemma inv_bfs_step:
  assumes "inv_bfs s" "loop_cond maxPages s"
  shows "inv_bfs (loop_body w depth maxPages s)"
proof -
  from assms(2) obtain url cd rest where q: "queue s = (url, cd) # rest"
    by (cases "queue s") (auto simp: loop_cond_def)
  from assms(1) q have fifo: "enqueued s = dequeued s @ (url, cd) # rest"
    and srt0: "sorted (map snd (enqueued s))"
    and near0: "\<forall>e \<in> set (queue s). \<forall>x \<in> set (queue s). snd e \<le> snd x + 1"
    and sub: "subseq (map (\<lambda>a. (fst a, fst (snd a))) (attempts s)) (dequeued s)"
    unfolding inv_bfs_def by metis+
  from srt0 fifo have srt: "sorted (map snd (dequeued s) @ cd # map snd rest)"
    by simp
  have near: "\<forall>e \<in> set rest. snd e \<le> cd + 1 \<and> cd \<le> snd e"
  proof
    fix e assume e: "e \<in> set rest"
    with near0 q have "snd e \<le> snd (url, cd) + 1" by (metis list.set_intros)
    moreover from srt e have "cd \<le> snd e" by (auto simp: sorted_append)
    ultimately show "snd e \<le> cd + 1 \<and> cd \<le> snd e" by simp
  qed
  have near2: "\<forall>e \<in> set rest. \<forall>x \<in> set rest. snd e \<le> snd x + 1"
    using near by (rule near_pairs)
  have sub': "subseq (map (\<lambda>a. (fst a, fst (snd a))) (attempts s) @ [(url, cd)])
                (dequeued s @ [(url, cd)])"
    using sub by (simp add: list_emb_append_mono)
  have sub'': "subseq (map (\<lambda>a. (fst a, fst (snd a))) (attempts s)) (dequeued s @ [(url, cd)])"
    using sub by (rule list_emb_prefix)
  from q show ?thesis
  proof (cases rule: loop_body_cases[where w = w and depth = depth and maxPages = maxPages])
    case skip
    then show ?thesis using fifo srt near2 sub'' by (simp add: inv_bfs_def)
  next
    case (fail e)
    then show ?thesis using fifo srt near2 sub' by (simp add: inv_bfs_def)
  next
    case (ok p)
    let ?new = "linkedPages (insert url (visitedUrls s)) cd p"
    have new: "\<forall>e \<in> set ?new. snd e = cd + 1" by (simp add: linkedPages_depth)
    have s1: "sorted (map snd (dequeued s) @ cd # map snd rest @ map snd ?new)"
      using srt near new sorted_linkedPages[of "insert url (visitedUrls s)" cd p]
      by (auto simp: sorted_append)
    have n1: "\<forall>e \<in> set (rest @ ?new). \<forall>x \<in> set (rest @ ?new). snd e \<le> snd x + 1"
      by (rule near_pairs[where cd = cd]) (use near new in auto)
    show ?thesis
    proof (cases "cd < depth")
      case True
      then show ?thesis using ok fifo s1 n1 sub' by (simp add: inv_bfs_def)
    next
      case False
      then show ?thesis using ok fifo srt near2 sub' by (simp add: inv_bfs_def)
    qed
  qed
qed

lemma inv_flags_initial: "inv_flags w (initial_state seeds)"
  by (simp add: inv_flags_def initial_state_def)

lemma inv_flags_extend:
  assumes "inv_flags w s"
    and "ok = (\<exists>p. extractContentFromUrl (w (length (attempts s)) url) url = Inr p)"
  shows "\<forall>i \<in> {..<Suc (length (attempts s))}.
           snd (snd ((attempts s @ [(url, cd, ok)]) ! i)) =
             (\<exists>p. extractContentFromUrl (w i (fst ((attempts s @ [(url, cd, ok)]) ! i)))
                    (fst ((attempts s @ [(url, cd, ok)]) ! i)) = Inr p)"
proof
  fix i assume "i \<in> {..<Suc (length (attempts s))}"
  then consider "i < length (attempts s)" | "i = length (attempts s)" by force
  then show "snd (snd ((attempts s @ [(url, cd, ok)]) ! i)) =
             (\<exists>p. extractContentFromUrl (w i (fst ((attempts s @ [(url, cd, ok)]) ! i)))
                    (fst ((attempts s @ [(url, cd, ok)]) ! i)) = Inr p)"
  proof cases
    case 1
    then show ?thesis using assms(1) by (simp add: inv_flags_def nth_append)
  next
    case 2
    then show ?thesis using assms(2) by (simp add: nth_append)
  qed
qed

lemma inv_flags_step:
  assumes "inv_flags w s" "loop_cond maxPages s"
  shows "inv_flags w (loop_body w depth maxPages s)"
proof -
  from assms(2) obtain url cd rest where q: "queue s = (url, cd) # rest"
    by (cases "queue s") (auto simp: loop_cond_def)
  from q show ?thesis
  proof (cases rule: loop_body_cases[where w = w and depth = depth and maxPages = maxPages])
    case skip
    then show ?thesis using assms(1) by (simp add: inv_flags_def)
  next
    case (fail e)
    then show ?thesis
      using inv_flags_extend[OF assms(1), of False url cd] by (simp add: inv_flags_def)
  next
    case (ok p)
    then show ?thesis
      using inv_flags_extend[OF assms(1), of True url cd] by (simp add: inv_flags_def)
  qed
qed

subsection \<open>Termination\<close>

text \<open>A run of the body either adds a result, of which there can be no more than
  \<^verbatim>\<open>maxPages\<close>, or leaves the results alone and shortens the queue.\<close>

lemma step_decreases:
  assumes "loop_cond maxPages s"
  shows "(loop_body w depth maxPages s, s)
           \<in> measures [\<lambda>s. nat (maxPages - int (length (results s))), \<lambda>s. length (queue s)]"
proof -
  from assms obtain url cd rest where q: "queue s = (url, cd) # rest"
    by (cases "queue s") (auto simp: loop_cond_def)
  from q show ?thesis
  proof (cases rule: loop_body_cases[where w = w and depth = depth and maxPages = maxPages])
    case skip
    then show ?thesis using q by simp
  next
    case (fail e)
    then show ?thesis using q by simp
  next
    case (ok p)
    then show ?thesis by simp
  qed
qed

lemma loop_terminates:
  "\<exists>t. while_option (loop_cond maxPages) (loop_body w depth maxPages) s = Some t"
proof (rule wf_while_option_Some[where P = "\<lambda>s. True"])
  show "wf {(t, s). (True \<and> loop_cond maxPages s) \<and> t = loop_body w depth maxPages s}"
    by (rule wf_subset[OF wf_measures[of
          "[\<lambda>s. nat (maxPages - int (length (results s))), \<lambda>s. length (queue s)]"]])
       (use step_decreases in auto)
qed simp_all

lemma inv_enqueues_initial: "inv_enqueues seeds (initial_state seeds)"
  by (simp add: inv_enqueues_def initial_state_def)

lemma length_linkedPages: "length (linkedPages v cd p) \<le> length (pc_links p)"
  by (simp add: linkedPages_def)

lemma inv_enqueues_step:
  assumes "inv_enqueues seeds s" "loop_cond maxPages s"
  shows "inv_enqueues seeds (loop_body w depth maxPages s)"
proof -
  from assms(2) obtain url cd rest where q: "queue s = (url, cd) # rest"
    by (cases "queue s") (auto simp: loop_cond_def)
  from q show ?thesis
  proof (cases rule: loop_body_cases[where w = w and depth = depth and maxPages = maxPages])
    case skip
    then show ?thesis using assms(1) by (simp add: inv_enqueues_def)
  next
    case (fail e)
    then show ?thesis using assms(1) by (simp add: inv_enqueues_def)
  next
    case (ok p)
    then show ?thesis
      using assms(1) length_linkedPages[of "insert url (visitedUrls s)" cd p]
      by (simp add: inv_enqueues_def)
  qed
qed

subsection \<open>Links stay on the origin of their page\<close>

lemma extractLinks_forEach_origin:
  assumes "extractLinks_forEach d anchors links = Inr out"
    and "\<forall>l \<in> set links. startsWith (l_url l) (location_origin d)"
  shows "\<forall>l \<in> set out. startsWith (l_url l) (location_origin d)"
  using assms
proof (induction anchors arbitrary: links)
  case Nil
  then show ?case by simp
next
  case (Cons anchor anchors)
  then show ?case
    by (auto simp: Let_def split: option.splits if_splits)
qed

lemma extractLinks_origin:
  "extractLinks d = Inr links \<Longrightarrow> \<forall>l \<in> set links. startsWith (l_url l) (location_origin d)"
  unfolding extractLinks_def by (erule extractLinks_forEach_origin) simp

lemma extractContentFromUrl_links_origin:
  assumes "extractContentFromUrl b url = Inr p"
  shows "\<forall>l \<in> set (pc_links p). startsWith (l_url l) (location_origin (loaded b))"
proof -
  from assms have "extractLinks (loaded b) = Inr (pc_links p)"
    by (auto simp: extractContentFromUrl_def extractContentFromUrl_run_def
        extractContentFromUrl_try_def await_def and_then_def Let_def
        split: option.splits sum.splits)
  then show ?thesis by (rule extractLinks_origin)
qed

lemma discovered_mono:
  assumes "discovered w as n u" "n \<le> length as" "n \<le> m"
  shows "discovered w (as @ bs) m u"
proof -
  from assms(1) obtain j where j: "j < n"
    "(case extractContentFromUrl (w j (fst (as ! j))) (fst (as ! j)) of
           Inl e \<Rightarrow> False
         | Inr p \<Rightarrow> u \<in> set (map l_url (pc_links p)))"
    "startsWith u (location_origin (loaded (w j (fst (as ! j)))))"
    by (auto simp: discovered_def)
  from j(1) assms(2) have "(as @ bs) ! j = as ! j" by (simp add: nth_append)
  with j assms(3) show ?thesis unfolding discovered_def
    by (intro bexI[of _ j]) auto
qed

lemma inv_origin_initial: "inv_origin w seeds (initial_state seeds)"
  by (auto simp: inv_origin_def initial_state_def)

lemma inv_origin_extend:
  assumes inv: "inv_origin w seeds s" and q: "queue s = (url, cd) # rest"
  shows "\<forall>e \<in> set rest.
           fst e \<in> set seeds \<or> discovered w (attempts s @ [a]) (Suc (length (attempts s))) (fst e)"
    and "fst a = url \<Longrightarrow> \<forall>i \<in> {..<Suc (length (attempts s))}.
           fst ((attempts s @ [a]) ! i) \<in> set seeds \<or>
           discovered w (attempts s @ [a]) i (fst ((attempts s @ [a]) ! i))"
proof -
  show "\<forall>e \<in> set rest.
           fst e \<in> set seeds \<or> discovered w (attempts s @ [a]) (Suc (length (attempts s))) (fst e)"
    using inv q discovered_mono[of w "attempts s" "length (attempts s)" _ "Suc (length (attempts s))" "[a]"]
    by (auto simp: inv_origin_def)
next
  assume a: "fst a = url"
  show "\<forall>i \<in> {..<Suc (length (attempts s))}.
           fst ((attempts s @ [a]) ! i) \<in> set seeds \<or>
           discovered w (attempts s @ [a]) i (fst ((attempts s @ [a]) ! i))"
  proof
    fix i assume "i \<in> {..<Suc (length (attempts s))}"
    then consider "i < length (attempts s)" | "i = length (attempts s)" by force
    then show "fst ((attempts s @ [a]) ! i) \<in> set seeds \<or>
           discovered w (attempts s @ [a]) i (fst ((attempts s @ [a]) ! i))"
    proof cases
      case 1
      then have "fst (attempts s ! i) \<in> set seeds \<or> discovered w (attempts s) i (fst (attempts s ! i))"
        using inv by (auto simp: inv_origin_def)
      then show ?thesis
        using 1 discovered_mono[of w "attempts s" i _ i "[a]"] by (auto simp: nth_append)
    next
      case 2
      have "url \<in> set seeds \<or> discovered w (attempts s) (length (attempts s)) url"
        using inv q by (auto simp: inv_origin_def)
      then show ?thesis
        using 2 a discovered_mono[of w "attempts s" "length (attempts s)" url "length (attempts s)" "[a]"]
        by (auto simp: nth_append)
    qed
  qed
qed

lemma inv_origin_step:
  assumes "inv_origin w seeds s" "loop_cond maxPages s"
  shows "inv_origin w seeds (loop_body w depth maxPages s)"
proof -
  from assms(2) obtain url cd rest where q: "queue s = (url, cd) # rest"
    by (cases "queue s") (auto simp: loop_cond_def)
  from q show ?thesis
  proof (cases rule: loop_body_cases[where w = w and depth = depth and maxPages = maxPages])
    case skip
    then show ?thesis using assms(1) q by (auto simp: inv_origin_def)
  next
    case (fail e)
    then show ?thesis
      using inv_origin_extend[OF assms(1) q, of "(url, cd, False)"]
      by (simp add: inv_origin_def)
  next
    case (ok p)
    let ?as = "attempts s @ [(url, cd, True)]"
    have new: "\<forall>e \<in> set (linkedPages (insert url (visitedUrls s)) cd p).
                 discovered w ?as (Suc (length (attempts s))) (fst e)"
    proof
      fix e assume "e \<in> set (linkedPages (insert url (visitedUrls s)) cd p)"
      then obtain l where l: "l \<in> set (pc_links p)" "fst e = l_url l"
        by (auto simp: linkedPages_def)
      then have "startsWith (fst e) (location_origin (loaded (w (length (attempts s)) url)))"
        using extractContentFromUrl_links_origin[OF ok(3)] by simp
      then show "discovered w ?as (Suc (length (attempts s))) (fst e)"
        unfolding discovered_def using ok(3) l
        by (intro bexI[of _ "length (attempts s)"]) auto
    qed
    show ?thesis
      using ok(4) new inv_origin_extend[OF assms(1) q, of "(url, cd, True)"]
      by (auto simp: inv_origin_def)
  qed
qed






subsection \<open>The example worlds, run\<close>

lemma trim_Nil [simp]: "trim [] = []"
  by (simp add: trim_def)

lemma trim_more [simp]:
  "trim (str ''more'') = str ''more''"
  by (simp add: trim_str is_white_space_def)

lemma example_extract:
  "extractMainContent (example_document origin []) = Inr (str ''No content found'')"
  "extractMainContent (example_document origin [h]) = Inr (str ''more'')"
  "extractMetadata (example_document origin hs) = (str ''T'', [])"
  by (simp_all add: example_document_def extractMainContent_def contentSelectors_def
      querySelector_def querySelectorAll_def body_fallback_def document_body_def is_body_def
      remove_all_def excludeSelectors_def extractMetadata_def content_of_def comp_def)

lemma example_links:
  "extractLinks (example_document (str ''http://a'') [str ''http://a/1''])
     = Inr [\<lparr>l_url = str ''http://a/1'', l_text = str ''more''\<rparr>]"
  "extractLinks (example_document (str ''http://b'') [str ''http://b/1''])
     = Inr [\<lparr>l_url = str ''http://b/1'', l_text = str ''more''\<rparr>]"
  "extractLinks (example_document (str ''http://a'') [str ''http://a.evil.com/''])
     = Inr [\<lparr>l_url = str ''http://a.evil.com/'', l_text = str ''more''\<rparr>]"
  "extractLinks (example_document origin []) = Inr []"
  by (simp_all add: example_document_def extractLinks_def querySelectorAll_def
      special_link_def)

lemma example_fetch:
  "extractContentFromUrl (example_world n (str ''http://a/'')) (str ''http://a/'')
     = Inr (example_page ''http://a/'' ''more'' [''http://a/1''])"
  "extractContentFromUrl (example_world n (str ''http://b/'')) (str ''http://b/'')
     = Inr (example_page ''http://b/'' ''more'' [''http://b/1''])"
  "extractContentFromUrl (example_world n (str ''http://a/1'')) (str ''http://a/1'')
     = Inr (example_page ''http://a/1'' ''No content found'' [])"
  "extractContentFromUrl (example_world n (str ''http://b/1'')) (str ''http://b/1'')
     = Inr (example_page ''http://b/1'' ''No content found'' [])"
  by (simp_all add: extractContentFromUrl_def extractContentFromUrl_run_def
      extractContentFromUrl_try_def await_def and_then_def example_world_def
      example_extract example_links example_page_def)

lemma example_run:
  "performDeepSearch_run example_world [str ''http://a/'', str ''http://b/'']
     \<lparr>opt_depth = Some 2, opt_maxPages = Some 4\<rparr> = Some example_final"
  by (simp add: performDeepSearch_run_def initial_state_def while_option_unfold
      loop_cond_def loop_body_def example_fetch linkedPages_def example_page_def
      example_final_def)

lemma flaky_fetch:
  "extractContentFromUrl (flaky_world n (str ''http://a/'')) (str ''http://a/'')
     = Inl ''net::ERR_CONNECTION_REFUSED''"
  "extractContentFromUrl (flaky_world n (str ''http://b/'')) (str ''http://b/'')
     = Inr (example_page ''http://b/'' ''more'' [''http://b/1''])"
  by (simp_all add: extractContentFromUrl_def extractContentFromUrl_run_def
      extractContentFromUrl_try_def await_def and_then_def flaky_world_def example_world_def
      example_extract example_links example_page_def)

lemma flaky_run:
  "performDeepSearch_run flaky_world [str ''http://a/'', str ''http://b/'']
     \<lparr>opt_depth = Some 1, opt_maxPages = Some 1\<rparr> = Some flaky_final"
  by (simp add: performDeepSearch_run_def initial_state_def while_option_unfold
      loop_cond_def loop_body_def flaky_fetch linkedPages_def example_page_def
      flaky_final_def)

lemma failing_fetch:
  "extractContentFromUrl (failing_world n url) url = Inl ''net::ERR_NAME_NOT_RESOLVED''"
  by (simp add: extractContentFromUrl_def extractContentFromUrl_run_def
      extractContentFromUrl_try_def await_def failing_world_def)

lemma failing_run:
  "performDeepSearch_run failing_world [str ''http://a/'', str ''http://b/'', str ''http://c/'']
     \<lparr>opt_depth = Some 1, opt_maxPages = Some 1\<rparr> = Some failing_final"
  by (simp add: performDeepSearch_run_def initial_state_def while_option_unfold
      loop_cond_def loop_body_def failing_fetch failing_final_def)

lemma other_host_fetch:
  "extractContentFromUrl (other_host_world n (str ''http://a/'')) (str ''http://a/'')
     = Inr (example_page ''http://a/'' ''more'' [''http://a.evil.com/''])"
  "extractContentFromUrl (other_host_world n (str ''http://a.evil.com/''))
     (str ''http://a.evil.com/'')
     = Inr (example_page ''http://a.evil.com/'' ''No content found'' [])"
  by (simp_all add: extractContentFromUrl_def extractContentFromUrl_run_def
      extractContentFromUrl_try_def await_def and_then_def other_host_world_def
      example_extract example_links example_page_def)

lemma other_host_run:
  "performDeepSearch_run other_host_world [str ''http://a/'']
     \<lparr>opt_depth = Some 2, opt_maxPages = Some 2\<rparr> = Some other_host_final"
  by (simp add: performDeepSearch_run_def initial_state_def while_option_unfold
      loop_cond_def loop_body_def other_host_fetch linkedPages_def example_page_def
      other_host_final_def)

subsection \<open>The invariants hold when the loop ends\<close>

lemma run_terminates: "\<exists>t. performDeepSearch_run w seeds opts = Some t"
  by (simp add: performDeepSearch_run_def Let_def loop_terminates)

lemma run_invariant:
  assumes "performDeepSearch_run w seeds opts = Some t"
    and "P (initial_state seeds)"
    and "\<And>s. P s \<Longrightarrow> loop_cond (or_default (opt_maxPages opts) 5) s \<Longrightarrow>
           P (loop_body w (or_default (opt_depth opts) 1) (or_default (opt_maxPages opts) 5) s)"
  shows "P t"
proof -
  have "while_option (loop_cond (or_default (opt_maxPages opts) 5))
          (loop_body w (or_default (opt_depth opts) 1) (or_default (opt_maxPages opts) 5))
          (initial_state seeds) = Some t"
    using assms(1) by (simp add: performDeepSearch_run_def Let_def)
  then show ?thesis
    using assms(2)
    by (rule while_option_rule[where P = P, rotated]) (rule assms(3))
qed

lemma run_budget:
  "performDeepSearch_run w seeds opts = Some t \<Longrightarrow>
   inv_budget (or_default (opt_maxPages opts) 5) t"
  by (erule run_invariant) (simp_all add: inv_budget_initial inv_budget_step)

lemma run_visited: "performDeepSearch_run w seeds opts = Some t \<Longrightarrow> inv_visited t"
  by (erule run_invariant) (simp_all add: inv_visited_initial inv_visited_step)

lemma run_flags: "performDeepSearch_run w seeds opts = Some t \<Longrightarrow> inv_flags w t"
  by (erule run_invariant) (simp_all add: inv_flags_initial inv_flags_step)

lemma run_bfs: "performDeepSearch_run w seeds opts = Some t \<Longrightarrow> inv_bfs t"
  by (erule run_invariant) (simp_all add: inv_bfs_initial inv_bfs_step)

lemma run_enqueues: "performDeepSearch_run w seeds opts = Some t \<Longrightarrow> inv_enqueues seeds t"
  by (erule run_invariant) (simp_all add: inv_enqueues_initial inv_enqueues_step)

lemma run_origin: "performDeepSearch_run w seeds opts = Some t \<Longrightarrow> inv_origin w seeds t"
  by (erule run_invariant) (simp_all add: inv_origin_initial inv_origin_step)


lemma distinct_succeeded:
  "distinct (map fst as) \<Longrightarrow> distinct (map fst (succeeded as))"
  by (simp add: succeeded_def comp_def distinct_map_filter)


subsection \<open>The claims about the traversal\<close>

text \<open>
  C1. For every world, seed list and \<^verbatim>\<open>maxPages\<close> of at least 1 (and every depth), the
  traversal returns; it returns at most \<^verbatim>\<open>maxPages\<close> pages; no URL occurs twice among
  them; no URL is fetched twice (\<open>attempts\<close> lists the calls of
  \<^verbatim>\<open>extractContentFromUrl\<close>); and the visited set is the set of the URLs fetched, each
  added when it was dequeued, before its fetch.
\<close>

theorem C1_budget_and_single_visit:
  assumes "opt_maxPages opts = Some maxPages" and "1 \<le> maxPages"
  shows "\<exists>t. performDeepSearch_run w seeds opts = Some t \<and>
             performDeepSearch w seeds opts = Some (results t) \<and>
             int (length (results t)) \<le> maxPages \<and>
             distinct (map pc_url (results t)) \<and>
             distinct (map fst (attempts t)) \<and>
             visitedUrls t = set (map fst (attempts t))"
proof -
  obtain t where t: "performDeepSearch_run w seeds opts = Some t"
    using run_terminates by blast
  have mp: "or_default (opt_maxPages opts) 5 = maxPages"
    using assms by simp
  have "int (length (results t)) \<le> maxPages"
    using run_budget[OF t] assms(2) by (simp add: mp inv_budget_def)
  moreover have v: "inv_visited t" by (rule run_visited[OF t])
  moreover have "distinct (map pc_url (results t))"
    using v distinct_succeeded[of "attempts t"] by (simp add: inv_visited_def)
  ultimately show ?thesis
    using t by (auto simp: performDeepSearch_def inv_visited_def)
qed

theorem C1_witness:
  "performDeepSearch example_world [str ''http://a/'', str ''http://b/'']
     \<lparr>opt_depth = Some 2, opt_maxPages = Some 4\<rparr> = Some (results example_final) \<and>
   int (length (results example_final)) \<le> 4 \<and>
   distinct (map pc_url (results example_final)) \<and>
   distinct (map fst (attempts example_final)) \<and>
   visitedUrls example_final = set (map fst (attempts example_final))"
  using C1_budget_and_single_visit[of "\<lparr>opt_depth = Some 2, opt_maxPages = Some 4\<rparr>" 4
      example_world "[str ''http://a/'', str ''http://b/'']"]
  by (simp add: example_run)

text \<open>
  C9. For every world, seed list, depth and page budget the loop ends. Each run of the
  body dequeues one entry, and either fetches its URL, which was never fetched before, or
  discards it. The fetches that return a page are the results, no more than the budget;
  the fetches that fail spend no budget and are not bounded by it. All of them are among
  the dequeued entries; there are no more of these than entries ever enqueued, which are
  the seeds and at most the links of the pages in the results. (Each fetch returns: a
  page, whose link list is finite, or an error.)
\<close>

theorem C9_traversal_terminates:
  "\<exists>t. performDeepSearch_run w seeds opts = Some t \<and>
        distinct (map fst (attempts t)) \<and>
        length (results t) = length (filter (\<lambda>a. snd (snd a)) (attempts t)) \<and>
        int (length (results t)) \<le> max 0 (or_default (opt_maxPages opts) 5) \<and>
        length (attempts t) \<le> length (dequeued t) \<and>
        length (dequeued t) \<le> length (enqueued t) \<and>
        length (enqueued t)
          \<le> length seeds + sum_list (map (\<lambda>p. length (pc_links p)) (results t))"
proof -
  obtain t where t: "performDeepSearch_run w seeds opts = Some t"
    using run_terminates by blast
  have v: "inv_visited t" by (rule run_visited[OF t])
  have b: "inv_bfs t" by (rule run_bfs[OF t])
  have 1: "distinct (map fst (attempts t))"
    using v by (simp add: inv_visited_def)
  have "length (map pc_url (results t)) = length (map fst (succeeded (attempts t)))"
    using v by (simp add: inv_visited_def)
  then have 2: "length (results t) = length (filter (\<lambda>a. snd (snd a)) (attempts t))"
    by (simp add: succeeded_def)
  have 3: "int (length (results t)) \<le> max 0 (or_default (opt_maxPages opts) 5)"
    using run_budget[OF t] by (simp add: inv_budget_def)
  have "subseq (map (\<lambda>a. (fst a, fst (snd a))) (attempts t)) (dequeued t)"
    using b unfolding inv_bfs_def by blast
  then have "length (map (\<lambda>a. (fst a, fst (snd a))) (attempts t)) \<le> length (dequeued t)"
    by (rule list_emb_length)
  then have 4: "length (attempts t) \<le> length (dequeued t)" by simp
  have "enqueued t = dequeued t @ queue t"
    using b unfolding inv_bfs_def by blast
  then have 5: "length (dequeued t) \<le> length (enqueued t)" by simp
  have 6: "length (enqueued t)
      \<le> length seeds + sum_list (map (\<lambda>p. length (pc_links p)) (results t))"
    using run_enqueues[OF t] by (simp add: inv_enqueues_def)
  from t 1 2 3 4 5 6 show ?thesis by blast
qed

theorem C9_witness:
  "performDeepSearch_run example_world [str ''http://a/'', str ''http://b/'']
     \<lparr>opt_depth = Some 2, opt_maxPages = Some 4\<rparr> = Some example_final \<and>
   distinct (map fst (attempts example_final)) \<and>
   length (results example_final)
     = length (filter (\<lambda>a. snd (snd a)) (attempts example_final)) \<and>
   int (length (results example_final)) \<le> 4 \<and>
   length (attempts example_final) \<le> length (dequeued example_final) \<and>
   length (dequeued example_final) \<le> length (enqueued example_final) \<and>
   length (enqueued example_final)
     \<le> 2 + sum_list (map (\<lambda>p. length (pc_links p)) (results example_final))"
  using C9_traversal_terminates[of example_world "[str ''http://a/'', str ''http://b/'']"
      "\<lparr>opt_depth = Some 2, opt_maxPages = Some 4\<rparr>"]
  by (simp add: example_run)

text \<open>
  Three seeds, none of which can be fetched, and a budget of one page: the traversal
  fetches all three, each a URL it had not seen, and returns no page. The fetches of
  novel URLs are not bounded by \<^verbatim>\<open>maxPages\<close>.
\<close>

theorem C9_counterexample:
  "performDeepSearch_run failing_world
     [str ''http://a/'', str ''http://b/'', str ''http://c/'']
     \<lparr>opt_depth = Some 1, opt_maxPages = Some 1\<rparr> = Some failing_final \<and>
   attempts failing_final
     = [(str ''http://a/'', 1, False), (str ''http://b/'', 1, False),
        (str ''http://c/'', 1, False)] \<and>
   distinct (map fst (attempts failing_final)) \<and>
   1 < length (attempts failing_final) \<and>
   results failing_final = []"
  by (simp add: failing_run) (simp add: failing_final_def)



text \<open>
  C2, as the code has it. A fetch that fails throws, and the traversal catches the error
  and goes on: the URL gets no entry in the results (a \<^verbatim>\<open>PageContent\<close> has no error
  field), it stays in the visited set, the results count the fetches that returned a page
  only, and a run of the body whose fetch fails puts nothing on the queue.
\<close>

theorem C2_failed_fetch_adds_nothing:
  assumes "performDeepSearch_run w seeds opts = Some t"
    and "i < length (attempts t)"
    and "extractContentFromUrl (w i (fst (attempts t ! i))) (fst (attempts t ! i)) = Inl e"
  shows "fst (attempts t ! i) \<notin> set (map pc_url (results t)) \<and>
         fst (attempts t ! i) \<in> visitedUrls t \<and>
         length (results t) = length (filter (\<lambda>a. snd (snd a)) (attempts t)) \<and>
         (\<forall>s url cd rest e'.
            queue s = (url, cd) # rest \<and> url \<notin> visitedUrls s \<and>
            int (length (results s)) < maxPages \<and>
            extractContentFromUrl (w (length (attempts s)) url) url = Inl e' \<longrightarrow>
            queue (loop_body w depth maxPages s) = rest \<and>
            enqueued (loop_body w depth maxPages s) = enqueued s \<and>
            results (loop_body w depth maxPages s) = results s)"
proof -
  have v: "inv_visited t" by (rule run_visited[OF assms(1)])
  have "\<not> snd (snd (attempts t ! i))"
    using run_flags[OF assms(1)] assms(2,3) by (auto simp: inv_flags_def)
  then have notin: "attempts t ! i \<notin> set (filter (\<lambda>a. snd (snd a)) (attempts t))"
    by simp
  have d: "distinct (map fst (attempts t))" using v by (simp add: inv_visited_def)
  have "fst (attempts t ! i) \<notin> set (map fst (succeeded (attempts t)))"
  proof
    assume "fst (attempts t ! i) \<in> set (map fst (succeeded (attempts t)))"
    then obtain a where a: "a \<in> set (attempts t)" "snd (snd a)" "fst a = fst (attempts t ! i)"
      by (auto simp: succeeded_def)
    have "attempts t ! i \<in> set (attempts t)" using assms(2) by simp
    with d a have "a = attempts t ! i" by (meson eq_key_imp_eq_value distinct_map inj_onD)
    with a notin show False by simp
  qed
  then have 1: "fst (attempts t ! i) \<notin> set (map pc_url (results t))"
    using v by (simp add: inv_visited_def)
  have 2: "fst (attempts t ! i) \<in> visitedUrls t"
    using v assms(2) by (simp add: inv_visited_def)
  have "length (map pc_url (results t)) = length (map fst (succeeded (attempts t)))"
    using v by (simp add: inv_visited_def)
  then have 3: "length (results t) = length (filter (\<lambda>a. snd (snd a)) (attempts t))"
    by (simp add: succeeded_def)
  have 4: "\<forall>s url cd rest e'.
            queue s = (url, cd) # rest \<and> url \<notin> visitedUrls s \<and>
            int (length (results s)) < maxPages \<and>
            extractContentFromUrl (w (length (attempts s)) url) url = Inl e' \<longrightarrow>
            queue (loop_body w depth maxPages s) = rest \<and>
            enqueued (loop_body w depth maxPages s) = enqueued s \<and>
            results (loop_body w depth maxPages s) = results s"
    by (simp add: loop_body_def)
  from 1 2 3 4 show ?thesis by blast
qed

theorem C2_witness:
  "performDeepSearch_run flaky_world [str ''http://a/'', str ''http://b/'']
     \<lparr>opt_depth = Some 1, opt_maxPages = Some 1\<rparr> = Some flaky_final \<and>
   attempts flaky_final ! 0 = (str ''http://a/'', 1, False) \<and>
   extractContentFromUrl (flaky_world 0 (str ''http://a/'')) (str ''http://a/'')
     = Inl ''net::ERR_CONNECTION_REFUSED'' \<and>
   str ''http://a/'' \<notin> set (map pc_url (results flaky_final)) \<and>
   str ''http://a/'' \<in> visitedUrls flaky_final \<and>
   length (results flaky_final) = length (filter (\<lambda>a. snd (snd a)) (attempts flaky_final))"
proof -
  have i: "0 < length (attempts flaky_final)"
    and a: "attempts flaky_final ! 0 = (str ''http://a/'', 1, False)"
    by (simp_all add: flaky_final_def)
  have f: "extractContentFromUrl (flaky_world 0 (fst (attempts flaky_final ! 0)))
             (fst (attempts flaky_final ! 0)) = Inl ''net::ERR_CONNECTION_REFUSED''"
    by (simp add: a flaky_fetch)
  show ?thesis
    using C2_failed_fetch_adds_nothing[OF flaky_run i f] a flaky_fetch(1)[of 0]
    by (simp add: flaky_run)
qed

theorem C2_counterexample:
  "extractContentFromUrl (flaky_world 0 (str ''http://a/'')) (str ''http://a/'')
     = Inl ''net::ERR_CONNECTION_REFUSED'' \<and>
   performDeepSearch flaky_world [str ''http://a/'', str ''http://b/'']
     \<lparr>opt_depth = Some 1, opt_maxPages = Some 1\<rparr>
     = Some [example_page ''http://b/'' ''more'' [''http://b/1'']] \<and>
   str ''http://a/'' \<notin> set (map pc_url [example_page ''http://b/'' ''more'' [''http://b/1'']])"
  by (simp add: flaky_fetch performDeepSearch_def flaky_run)
     (simp add: flaky_final_def example_page_def)

text \<open>
  C10. \<^verbatim>\<open>extractLinks\<close> of \<^verbatim>\<open>src/utils/content-extractor.ts\<close> keeps a link when its URL,
  a string, starts with the string \<^verbatim>\<open>window.location.origin\<close>
  (\<open>extractLinks_origin\<close>, and \<open>run_origin\<close> for the URLs a traversal fetches). That is
  not the same origin: on the page \<^verbatim>\<open>http://a/\<close>, of origin \<^verbatim>\<open>http://a\<close>, the link to
  \<^verbatim>\<open>http://a.evil.com/\<close> is kept, and the traversal fetches it, a page of the origin
  \<^verbatim>\<open>http://a.evil.com\<close>.
\<close>

theorem C10_other_host_kept_and_fetched:
  "location_origin (loaded (other_host_world 0 (str ''http://a/''))) = str ''http://a'' \<and>
   extractLinks (loaded (other_host_world 0 (str ''http://a/'')))
     = Inr [\<lparr>l_url = str ''http://a.evil.com/'', l_text = str ''more''\<rparr>] \<and>
   startsWith (str ''http://a.evil.com/'') (str ''http://a'') \<and>
   performDeepSearch_run other_host_world [str ''http://a/'']
     \<lparr>opt_depth = Some 2, opt_maxPages = Some 2\<rparr> = Some other_host_final \<and>
   attempts other_host_final
     = [(str ''http://a/'', 1, True), (str ''http://a.evil.com/'', 2, True)] \<and>
   location_origin (loaded (other_host_world 1 (str ''http://a.evil.com/'')))
     = str ''http://a.evil.com'' \<and>
   str ''http://a.evil.com'' \<noteq> str ''http://a''"
proof -
  have "extractLinks (loaded (other_host_world 0 (str ''http://a/'')))
      = Inr [\<lparr>l_url = str ''http://a.evil.com/'', l_text = str ''more''\<rparr>]"
    by (simp add: other_host_world_def example_links)
  then show ?thesis
    by (simp add: other_host_run)
       (simp add: other_host_world_def example_document_def other_host_final_def)
qed

section \<open>Theorems: fetching one page\<close>














lemma extractContentFromUrl_closes_page:
  "snd (extractContentFromUrl_run b url) =
     (if fails b GetBrowser = None \<and> fails b NewPage = None
      then [PageCreated, PageClosed] else [])"
  by (simp add: extractContentFromUrl_run_def Let_def split: option.splits)

lemma CE_extractContent_closes_page_it_holds:
  "fst (BrowserManager_newPage b) = Inr page \<Longrightarrow>
   snd (CE_extractContent_run b url) = [PageCreated, PageClosed]"
  by (auto simp: CE_extractContent_run_def Let_def BrowserManager_newPage_def
      split: option.splits)

text \<open>
  C4. \<^verbatim>\<open>extractContentFromUrl\<close> closes the page it created on every path
  (\<open>extractContentFromUrl_closes_page\<close>), and \<^verbatim>\<open>ContentExtractor.extractContent\<close> closes
  the page that \<^verbatim>\<open>browserManager.newPage()\<close> returned to it
  (\<open>CE_extractContent_closes_page_it_holds\<close>). But when \<^verbatim>\<open>setUserAgent\<close> rejects inside
  \<^verbatim>\<open>browserManager.newPage()\<close>, the page is already created, the variable \<^verbatim>\<open>page\<close> of
  \<^verbatim>\<open>extractContent\<close> is still \<^verbatim>\<open>null\<close>, and the call returns its error result with the
  page left open. \<^verbatim>\<open>extractContentFromUrl\<close>, in the same browser, closes its page.
\<close>

theorem C4_page_left_open_when_user_agent_fails:
  "CE_extractContent_run user_agent_fails (str ''http://a/'') =
     (Inr (error_content (str ''http://a/'') ''Network.setUserAgentOverride timed out''),
      [PageCreated]) \<and>
   extractContentFromUrl_run user_agent_fails (str ''http://a/'') =
     (Inl ''Network.setUserAgentOverride timed out'', [PageCreated, PageClosed])"
  by (simp add: CE_extractContent_run_def BrowserManager_newPage_def and_then_def
      user_agent_fails_def extractContentFromUrl_run_def extractContentFromUrl_try_def
      await_def)

section \<open>Theorems: the links of a page\<close>

















section \<open>Theorems: the main content\<close>

subsection \<open>The walk of \<^verbatim>\<open>extractMainContent\<close> in \<^verbatim>\<open>src/utils/content-extractor.ts\<close>\<close>








subsection \<open>The walk of \<^verbatim>\<open>ContentExtractor.extractMainContent\<close>\<close>













subsection \<open>Example documents\<close>



lemma matches_text_element [simp]: "matches q (Tag t) (text_element t' n c) = (t' = t)"
  "matches q (Class k) (text_element t' n c) = False"
  "matches q (Id k) (text_element t' n c) = False"
  "textContent (text_element t' n c) = replicate n (of_char c)"
  "descendants (text_element t' n c) = [Text (replicate n (of_char c))]"
  by (simp_all add: text_element_def)















end
